theory Spec2Isabelle
  imports Complex_Main "HOL-Library.Sublist"
begin

section \<open>The process watchdog of process_monitor.py\<close>

text \<open>
  The watchdog is a polling loop around external collaborators: the process table (psutil),
  the service manager and the shell (subprocess), the wall clock and an HTTP client.
  The model passes the history of external calls explicitly (most recent call first).
  What a collaborator answers is given by an environment of oracles, each a function of
  the history before the call, so that any behaviour of the outside world is covered and
  a concrete environment can be evaluated.

  Python floats (thresholds, samples, timestamps) are modelled as reals; the resident set
  size is a natural number of bytes, and dividing it by \<open>1024**2\<close> is exact.
\<close>

subsection \<open>Exceptions, messages and external calls\<close>

text \<open>The exceptions the collaborators raise; all of them are subclasses of \<open>Exception\<close>.\<close>

datatype exc =
    NoSuchProcess
  | AccessDenied
  | TimeoutExpired
  | TypeError
  | ValueError
  | CalledProcessError int
  | OtherException string

text \<open>\<open>except Exception\<close> (lines 42, 49, 56, 72, 85).\<close>

fun is_Exception :: "exc \<Rightarrow> bool" where
  "is_Exception e = True"

text \<open>\<open>except (psutil.NoSuchProcess, psutil.AccessDenied)\<close> (lines 30, 124).\<close>

fun is_gone :: "exc \<Rightarrow> bool" where
  "is_gone NoSuchProcess = True"
| "is_gone AccessDenied = True"
| "is_gone e = False"

text \<open>
  The second component of a strategy's result. The source builds human-readable text;
  each constructor stands for one literal of the source, carrying what is formatted into it.
\<close>

datatype msg =
    SystemctlDone
  | SystemctlFailed exc
  | CommandDone string
  | CommandFailed string exc
  | KillStartDone
  | Str exc

text \<open>The two notification texts (lines 97 and 122), without the rendered date.\<close>

datatype notice =
    Started "string option"
  | Restarted "string option" nat real real

datatype call =
    TimeTime
  | ProcessIter
  | OpenProcess string
  | MemoryInfo nat
  | CpuPercent nat
  | ProcName nat
  | Terminate nat
  | Wait nat nat
  | Kill nat
  | Systemctl string
  | ShellRun string
  | Popen string
  | Post string notice
  | Sleep int

type_synonym history = "call list"

record proc_info =
  info_name :: "string option"
  info_cmdline :: "string list option"

text \<open>
  The parsed command line (lines 131-140). A string option that was not given is
  \<open>None\<close>; the thresholds are optional floats, the interval and the cooldown integers.
\<close>

record args =
  name :: "string option"
  pid :: "string option"
  max_mem_mb :: "real option"
  max_cpu :: "real option"
  interval :: int
  service :: "string option"
  start_cmd :: "string option"
  webhook :: "string option"
  cooldown :: int

text \<open>
  The oracles. Each takes the history before the call. \<open>None\<close> from a command
  oracle means the call returned normally (for \<open>subprocess.run(..., check=True)\<close>:
  exit status zero). \<open>open_process\<close> stands for \<open>psutil.Process(int(s))\<close>, the
  conversion included; \<open>memory_rss\<close> for \<open>p.memory_info().rss\<close>.
  \<open>requests_installed\<close> is \<open>requests is not None\<close>; \<open>dunder_main\<close> is
  \<open>__name__ == "__main__"\<close>; \<open>parse_args\<close> is what \<open>parser.parse_args()\<close>
  returns, \<open>None\<close> when the parser itself exits.
\<close>

record env =
  clock :: "history \<Rightarrow> real"
  process_iter :: "history \<Rightarrow> (nat \<times> (exc + proc_info)) list"
  open_process :: "history \<Rightarrow> string \<Rightarrow> exc + nat"
  memory_rss :: "history \<Rightarrow> nat \<Rightarrow> exc + nat"
  cpu_percent :: "history \<Rightarrow> nat \<Rightarrow> exc + real"
  proc_name :: "history \<Rightarrow> nat \<Rightarrow> exc + string"
  terminate :: "history \<Rightarrow> nat \<Rightarrow> exc option"
  wait :: "history \<Rightarrow> nat \<Rightarrow> nat \<Rightarrow> exc option"
  kill :: "history \<Rightarrow> nat \<Rightarrow> exc option"
  run_systemctl :: "history \<Rightarrow> string \<Rightarrow> exc option"
  run_shell :: "history \<Rightarrow> string \<Rightarrow> exc option"
  popen :: "history \<Rightarrow> string \<Rightarrow> exc option"
  post :: "history \<Rightarrow> string \<Rightarrow> notice \<Rightarrow> exc option"
  requests_installed :: bool
  dunder_main :: bool
  parse_args :: "args option"

subsection \<open>Python truthiness and sequencing\<close>

fun truthy_str :: "string option \<Rightarrow> bool" where
  "truthy_str None = False"
| "truthy_str (Some s) = (s \<noteq> [])"

text \<open>Sequencing of calls that may raise: an exception skips the rest.\<close>

definition bind_exc ::
  "('e + 'a) \<times> history \<Rightarrow> ('a \<Rightarrow> history \<Rightarrow> ('e + 'b) \<times> history) \<Rightarrow> ('e + 'b) \<times> history" where
  "bind_exc m f = (case m of (Inl e, h) \<Rightarrow> (Inl e, h) | (Inr x, h) \<Rightarrow> f x h)"

text \<open>A call whose returned value is not used: it returns or raises, and is recorded.\<close>

definition command :: "exc option \<Rightarrow> call \<Rightarrow> history \<Rightarrow> (exc + unit) \<times> history" where
  "command r c h = (case r of None \<Rightarrow> (Inr (), c # h) | Some e \<Rightarrow> (Inl e, c # h))"

definition time_time :: "env \<Rightarrow> history \<Rightarrow> real \<times> history" where
  "time_time E h = (clock E h, TimeTime # h)"

subsection \<open>notify_webhook (lines 34-43)\<close>

text \<open>A failing POST is logged and swallowed: both outcomes leave the same history.\<close>

definition notify_webhook :: "env \<Rightarrow> string option \<Rightarrow> notice \<Rightarrow> history \<Rightarrow> history" where
  "notify_webhook E webhook_url message h =
     (case webhook_url of
        None \<Rightarrow> h
      | Some url \<Rightarrow>
          if url = [] then h
          else if \<not> requests_installed E then h
          else (case command (post E h url message) (Post url message) h of
                  (Inr u, h') \<Rightarrow> h'
                | (Inl e, h') \<Rightarrow> if is_Exception e then h' else h'))"

subsection \<open>The recovery strategies (lines 45-74)\<close>

definition restart_via_systemctl ::
  "env \<Rightarrow> string \<Rightarrow> history \<Rightarrow> (exc + bool \<times> msg) \<times> history" where
  "restart_via_systemctl E service_name h =
     (case command (run_systemctl E h service_name) (Systemctl service_name) h of
        (Inr u, h') \<Rightarrow> (Inr (True, SystemctlDone), h')
      | (Inl e, h') \<Rightarrow>
          if is_Exception e then (Inr (False, SystemctlFailed e), h') else (Inl e, h'))"

definition restart_via_command ::
  "env \<Rightarrow> string \<Rightarrow> history \<Rightarrow> (exc + bool \<times> msg) \<times> history" where
  "restart_via_command E cmd h =
     (case command (run_shell E h cmd) (ShellRun cmd) h of
        (Inr u, h') \<Rightarrow> (Inr (True, CommandDone cmd), h')
      | (Inl e, h') \<Rightarrow>
          if is_Exception e then (Inr (False, CommandFailed cmd e), h') else (Inl e, h'))"

text \<open>\<open>proc.name()\<close>, evaluated for the log line 61.\<close>

definition name_call :: "env \<Rightarrow> nat \<Rightarrow> history \<Rightarrow> (exc + string) \<times> history" where
  "name_call E p h = (proc_name E h p, ProcName p # h)"

text \<open>Lines 63-67: the wait and its own handler for the timeout.\<close>

definition wait_or_kill :: "env \<Rightarrow> nat \<Rightarrow> history \<Rightarrow> (exc + unit) \<times> history" where
  "wait_or_kill E p h =
     (case command (wait E h p 10) (Wait p 10) h of
        (Inr u, h') \<Rightarrow> (Inr (), h')
      | (Inl e, h') \<Rightarrow>
          if e = TimeoutExpired then command (kill E h' p) (Kill p) h' else (Inl e, h'))"

text \<open>Lines 68-70.\<close>

definition launch :: "env \<Rightarrow> string option \<Rightarrow> history \<Rightarrow> (exc + unit) \<times> history" where
  "launch E start_cmd' h =
     (if truthy_str start_cmd'
      then (case start_cmd' of
              Some c \<Rightarrow> command (popen E h c) (Popen c) h
            | None \<Rightarrow> (Inr (), h))
      else (Inr (), h))"

text \<open>The body of the \<open>try\<close> of kill_and_start, lines 61-70.\<close>

definition kill_and_start_body ::
  "env \<Rightarrow> nat \<Rightarrow> string option \<Rightarrow> history \<Rightarrow> (exc + unit) \<times> history" where
  "kill_and_start_body E p start_cmd' h =
     bind_exc (name_call E p h) (\<lambda>nm h1.
     bind_exc (command (terminate E h1 p) (Terminate p) h1) (\<lambda>u h2.
     bind_exc (wait_or_kill E p h2) (\<lambda>u h3.
     launch E start_cmd' h3)))"

definition kill_and_start ::
  "env \<Rightarrow> nat \<Rightarrow> string option \<Rightarrow> history \<Rightarrow> (exc + bool \<times> msg) \<times> history" where
  "kill_and_start E p start_cmd' h =
     (case kill_and_start_body E p start_cmd' h of
        (Inr u, h') \<Rightarrow> (Inr (True, KillStartDone), h')
      | (Inl e, h') \<Rightarrow>
          if is_Exception e then (Inr (False, Str e), h') else (Inl e, h'))"

subsection \<open>find_processes_by_name (lines 24-32)\<close>

text \<open>\<open>' '.join(cmdline)\<close>.\<close>

fun join_space :: "string list \<Rightarrow> string" where
  "join_space [] = []"
| "join_space [x] = x"
| "join_space (x # y # ys) = x @ CHR '' '' # join_space (y # ys)"

text \<open>
  The condition of line 28. \<open>name in s\<close> on strings is the contiguous-substring test;
  with \<open>name\<close> being \<open>None\<close> it raises TypeError. An empty or missing command line
  is falsy and ends the \<open>and\<close> before the test.
\<close>

definition name_matches :: "string option \<Rightarrow> proc_info \<Rightarrow> exc + bool" where
  "name_matches name' i =
     (if info_name i = name' then Inr True
      else (case info_cmdline i of
              None \<Rightarrow> Inr False
            | Some cl \<Rightarrow>
                if cl = [] then Inr False
                else (case name' of
                        None \<Rightarrow> Inl TypeError
                      | Some t \<Rightarrow> Inr (sublist t (join_space cl)))))"

text \<open>
  The loop over \<open>psutil.process_iter\<close>. Each entry is a handle and what reading its
  \<open>info\<close> gives: the fields, or an exception.
\<close>

fun scan :: "string option \<Rightarrow> (nat \<times> (exc + proc_info)) list \<Rightarrow> nat list \<Rightarrow> exc + nat list" where
  "scan name' [] procs = Inr procs"
| "scan name' ((p, r) # es) procs =
     (case (case r of Inl e \<Rightarrow> Inl e | Inr i \<Rightarrow> name_matches name' i) of
        Inr b \<Rightarrow> if b then scan name' es (procs @ [p]) else scan name' es procs
      | Inl e \<Rightarrow> if is_gone e then scan name' es procs else Inl e)"

definition find_processes_by_name ::
  "env \<Rightarrow> string option \<Rightarrow> history \<Rightarrow> (exc + nat list) \<times> history" where
  "find_processes_by_name E name' h = (scan name' (process_iter E h) [], ProcessIter # h)"

subsection \<open>The loop body of main (lines 80-127)\<close>

text \<open>Lines 80-88.\<close>

definition resolve :: "env \<Rightarrow> args \<Rightarrow> history \<Rightarrow> (exc + nat list) \<times> history" where
  "resolve E a h =
     (if truthy_str (pid a)
      then (case pid a of
              Some s \<Rightarrow>
                (case open_process E h s of
                   Inr p \<Rightarrow> (Inr [p], OpenProcess s # h)
                 | Inl e \<Rightarrow> if is_Exception e then (Inr [], OpenProcess s # h)
                            else (Inl e, OpenProcess s # h))
            | None \<Rightarrow> (Inr [], h))
      else find_processes_by_name E (name a) h)"

text \<open>
  \<open>not last_action or (time.time() - last_action) > args.cooldown\<close>:
  the clock is read only when \<open>last_action\<close> is truthy (set, and not 0.0).
\<close>

definition gate :: "env \<Rightarrow> args \<Rightarrow> real option \<Rightarrow> history \<Rightarrow> bool \<times> history" where
  "gate E a last_action h =
     (case last_action of
        None \<Rightarrow> (True, h)
      | Some l \<Rightarrow>
          if l = 0 then (True, h)
          else (case time_time E h of (t, h') \<Rightarrow> (t - l > real_of_int (cooldown a), h')))"

text \<open>Lines 93-98, the branch for an empty \<open>procs\<close>.\<close>

definition not_found ::
  "env \<Rightarrow> args \<Rightarrow> real option \<Rightarrow> history \<Rightarrow> (exc + real option) \<times> history" where
  "not_found E a last_action h =
     (if truthy_str (start_cmd a)
      then (case start_cmd a of
              Some c \<Rightarrow>
                (case gate E a last_action h of
                   (g, h1) \<Rightarrow>
                     if g
                     then bind_exc (restart_via_command E c h1) (\<lambda>(ok, m) h2.
                            if ok
                            then (case time_time E (notify_webhook E (webhook a) (Started (name a)) h2) of
                                    (t, h3) \<Rightarrow> (Inr (Some t), h3))
                            else (Inr last_action, h2))
                     else (Inr last_action, h1))
            | None \<Rightarrow> (Inr last_action, h))
      else (Inr last_action, h))"

text \<open>Line 106. \<open>args.max_mem_mb and mem_mb > args.max_mem_mb\<close>: unset and 0 are falsy.\<close>

definition exceeds :: "real option \<Rightarrow> real \<Rightarrow> bool" where
  "exceeds limit v = (case limit of None \<Rightarrow> False | Some m \<Rightarrow> m \<noteq> 0 \<and> v > m)"

definition threshold_trip :: "args \<Rightarrow> real \<Rightarrow> real \<Rightarrow> bool" where
  "threshold_trip a mem_mb cpu = (exceeds (max_mem_mb a) mem_mb \<or> exceeds (max_cpu a) cpu)"

text \<open>Lines 110-113; the result is \<open>action_taken\<close>.\<close>

definition step_service ::
  "env \<Rightarrow> args \<Rightarrow> real option \<Rightarrow> history \<Rightarrow> (exc + bool) \<times> history" where
  "step_service E a last_action h =
     (if truthy_str (service a)
      then (case service a of
              Some s \<Rightarrow>
                (case gate E a last_action h of
                   (g, h1) \<Rightarrow>
                     if g then bind_exc (restart_via_systemctl E s h1) (\<lambda>(ok, m) h2. (Inr ok, h2))
                     else (Inr False, h1))
            | None \<Rightarrow> (Inr False, h))
      else (Inr False, h))"

text \<open>Lines 114-117.\<close>

definition step_start_cmd ::
  "env \<Rightarrow> args \<Rightarrow> real option \<Rightarrow> bool \<Rightarrow> history \<Rightarrow> (exc + bool) \<times> history" where
  "step_start_cmd E a last_action action_taken h =
     (if \<not> action_taken \<and> truthy_str (start_cmd a)
      then (case start_cmd a of
              Some c \<Rightarrow>
                (case gate E a last_action h of
                   (g, h1) \<Rightarrow>
                     if g then bind_exc (restart_via_command E c h1) (\<lambda>(ok, m) h2. (Inr ok, h2))
                     else (Inr action_taken, h1))
            | None \<Rightarrow> (Inr action_taken, h))
      else (Inr action_taken, h))"

text \<open>Lines 118-121.\<close>

definition step_kill ::
  "env \<Rightarrow> args \<Rightarrow> real option \<Rightarrow> nat \<Rightarrow> bool \<Rightarrow> history \<Rightarrow> (exc + bool) \<times> history" where
  "step_kill E a last_action p action_taken h =
     (if \<not> action_taken
      then (case gate E a last_action h of
              (g, h1) \<Rightarrow>
                if g then bind_exc (kill_and_start E p (start_cmd a) h1) (\<lambda>(ok, m) h2. (Inr ok, h2))
                else (Inr action_taken, h1))
      else (Inr action_taken, h))"

text \<open>Lines 107-123: what is done for a process that trips; the result is \<open>last_action\<close>.\<close>

definition handle_trip ::
  "env \<Rightarrow> args \<Rightarrow> real option \<Rightarrow> nat \<Rightarrow> real \<Rightarrow> real \<Rightarrow> history \<Rightarrow> (exc + real option) \<times> history" where
  "handle_trip E a last_action p mem_mb cpu h =
     bind_exc (step_service E a last_action h) (\<lambda>taken1 h1.
     bind_exc (step_start_cmd E a last_action taken1 h1) (\<lambda>taken2 h2.
     bind_exc (step_kill E a last_action p taken2 h2) (\<lambda>taken3 h3.
       (case time_time E (notify_webhook E (webhook a) (Restarted (name a) p mem_mb cpu) h3) of
          (t, h4) \<Rightarrow> (Inr (Some t), h4)))))"

text \<open>Lines 103-104.\<close>

definition sample :: "env \<Rightarrow> nat \<Rightarrow> history \<Rightarrow> (exc + real \<times> real) \<times> history" where
  "sample E p h =
     bind_exc (memory_rss E h p, MemoryInfo p # h) (\<lambda>rss h1.
     bind_exc (cpu_percent E h1 p, CpuPercent p # h1) (\<lambda>cpu h2.
       (Inr (real rss / 1024 ^ 2, cpu), h2)))"

text \<open>Lines 102-125: one iteration of the \<open>for\<close> loop, with its handler.\<close>

definition check_process ::
  "env \<Rightarrow> args \<Rightarrow> real option \<Rightarrow> nat \<Rightarrow> history \<Rightarrow> (exc + real option) \<times> history" where
  "check_process E a last_action p h =
     (case bind_exc (sample E p h) (\<lambda>(mem_mb, cpu) h2.
             if threshold_trip a mem_mb cpu then handle_trip E a last_action p mem_mb cpu h2
             else (Inr last_action, h2)) of
        (Inr la, h') \<Rightarrow> (Inr la, h')
      | (Inl e, h') \<Rightarrow> if is_gone e then (Inr last_action, h') else (Inl e, h'))"

fun check_all ::
  "env \<Rightarrow> args \<Rightarrow> real option \<Rightarrow> nat list \<Rightarrow> history \<Rightarrow> (exc + real option) \<times> history" where
  "check_all E a last_action [] h = (Inr last_action, h)"
| "check_all E a last_action (p # ps) h =
     bind_exc (check_process E a last_action p h) (\<lambda>la h'. check_all E a la ps h')"

text \<open>Line 127: \<open>time.sleep\<close> raises ValueError on a negative length.\<close>

definition sleep :: "int \<Rightarrow> history \<Rightarrow> (exc + unit) \<times> history" where
  "sleep n h = (if n < 0 then (Inl ValueError, Sleep n # h) else (Inr (), Sleep n # h))"

text \<open>Lines 80-127: one pass of the \<open>while\<close> loop, up to and including the sleep.\<close>

definition tick ::
  "env \<Rightarrow> args \<Rightarrow> real option \<Rightarrow> history \<Rightarrow> (exc + real option) \<times> history" where
  "tick E a last_action h =
     bind_exc (resolve E a h) (\<lambda>procs h1.
     bind_exc (if procs = [] then not_found E a last_action h1
               else check_all E a last_action procs h1) (\<lambda>la h2.
     bind_exc (sleep (interval a) h2) (\<lambda>u h3. (Inr la, h3))))"

subsection \<open>The selector check and the loop (lines 76-143)\<close>

text \<open>Lines 141-142: the text handed to \<open>parser.error\<close>, if it is called.\<close>

definition selector_check :: "args \<Rightarrow> string option" where
  "selector_check a =
     (if \<not> truthy_str (name a) \<and> \<not> truthy_str (pid a)
      then Some ''Must specify --name or --pid'' else None)"

text \<open>
  How a bounded prefix of a run ends: an exception leaves \<open>main\<close>, the argument parser
  exits the interpreter (its message, if it is the selector check), or the loop is still
  running with this \<open>last_action\<close>.
\<close>

datatype outcome =
    Raised exc
  | ParserExit "string option"
  | Running "real option"

text \<open>
  \<open>main\<close>, with a bound on the number of passes. In the source the block under
  \<open>if __name__ == "__main__"\<close> (lines 129-143) is indented into the \<open>while\<close> loop:
  it runs after the sleep of each pass, and its call \<open>main(args)\<close> starts a new loop
  with \<open>last_action = None\<close> that does not return.
\<close>

fun main :: "nat \<Rightarrow> env \<Rightarrow> args \<Rightarrow> real option \<Rightarrow> history \<Rightarrow> outcome \<times> history" where
  "main 0 E a last_action h = (Running last_action, h)"
| "main (Suc n) E a last_action h =
     (case tick E a last_action h of
        (Inl e, h') \<Rightarrow> (Raised e, h')
      | (Inr la, h') \<Rightarrow>
          if dunder_main E
          then (case parse_args E of
                  None \<Rightarrow> (ParserExit None, h')
                | Some a' \<Rightarrow>
                    (case selector_check a' of
                       Some text' \<Rightarrow> (ParserExit (Some text'), h')
                     | None \<Rightarrow> main n E a' None h'))
          else main n E a la h')"

text \<open>
  The top level of the module: the imports (lines 6-16), the logging configuration
  (lines 18-22) and the definitions of the six functions, \<open>main\<close> last (lines 76-143).
  No statement at top level builds the parser or calls \<open>main\<close>: the only call of
  \<open>main\<close> is line 143, inside \<open>main\<close>. Run as a script, the module makes no
  external call and the interpreter ends normally (\<open>None\<close>: no outcome of \<open>main\<close>).
\<close>

definition module_body :: "env \<Rightarrow> history \<Rightarrow> outcome option \<times> history" where
  "module_body E h = (None, h)"

subsection \<open>Reading a history\<close>

text \<open>
  The calls that start a recovery strategy: the service restart, the start command, and
  \<open>proc.name()\<close>, the first call that kill_and_start makes.
\<close>

fun is_dispatch :: "call \<Rightarrow> bool" where
  "is_dispatch (Systemctl s) = True"
| "is_dispatch (ShellRun c) = True"
| "is_dispatch (ProcName p) = True"
| "is_dispatch c = False"

text \<open>Whether the command of a service restart or start command, made after \<open>g\<close>, exited with zero.\<close>

fun cmd_ok :: "env \<Rightarrow> call \<Rightarrow> history \<Rightarrow> bool" where
  "cmd_ok E (Systemctl s) g = (run_systemctl E g s = None)"
| "cmd_ok E (ShellRun c) g = (run_shell E g c = None)"
| "cmd_ok E c g = False"

text \<open>
  The gate check that ended with history \<open>g\<close> found the gate open for \<open>last_action\<close>:
  nothing to compare with, or the clock read last exceeded it by more than the cooldown.
\<close>

definition gate_passed :: "env \<Rightarrow> args \<Rightarrow> real option \<Rightarrow> history \<Rightarrow> bool" where
  "gate_passed E a last_action g =
     (case last_action of
        None \<Rightarrow> True
      | Some l \<Rightarrow>
          l = 0 \<or> (case g of
                     TimeTime # g' \<Rightarrow> clock E g' - l > real_of_int (cooldown a)
                   | _ \<Rightarrow> False))"

text \<open>
  The strategy calls among the events \<open>new\<close> made on top of \<open>h\<close>, most recent first,
  each with the outcome of its command and with whether a passed gate check came right before it.
\<close>

fun dispatches :: "env \<Rightarrow> args \<Rightarrow> real option \<Rightarrow> history \<Rightarrow> history \<Rightarrow> (call \<times> bool \<times> bool) list" where
  "dispatches E a la [] h = []"
| "dispatches E a la (c # new) h =
     (if is_dispatch c
      then (c, cmd_ok E c (new @ h), gate_passed E a la (new @ h)) # dispatches E a la new h
      else dispatches E a la new h)"

text \<open>Every strategy call among \<open>new\<close> came right after a passed gate check.\<close>

definition gated :: "env \<Rightarrow> args \<Rightarrow> real option \<Rightarrow> history \<Rightarrow> history \<Rightarrow> bool" where
  "gated E a la new h = (\<forall>d \<in> set (dispatches E a la new h). snd (snd d))"

text \<open>
  The strategies a configuration makes available, in the order of lines 110-121: the
  service restart and the start command when their option is a non-empty string, and
  kill_and_start always.
\<close>

definition plan :: "args \<Rightarrow> nat \<Rightarrow> call list" where
  "plan a p =
     (case service a of None \<Rightarrow> [] | Some s \<Rightarrow> if s = [] then [] else [Systemctl s])
     @ (case start_cmd a of None \<Rightarrow> [] | Some c \<Rightarrow> if c = [] then [] else [ShellRun c])
     @ [ProcName p]"










text \<open>
  The name-mode match in the specification's words: the reported name equals the target,
  or the target is a substring of the joined command line.
\<close>

definition name_match_spec :: "string \<Rightarrow> proc_info \<Rightarrow> bool" where
  "name_match_spec target i =
     (info_name i = Some target
      \<or> (case info_cmdline i of None \<Rightarrow> False | Some cl \<Rightarrow> sublist target (join_space cl)))"

text \<open>The processes of an enumeration that were readable, with what was read.\<close>

fun readable :: "(nat \<times> (exc + proc_info)) list \<Rightarrow> (nat \<times> proc_info) list" where
  "readable [] = []"
| "readable ((p, Inr i) # es) = (p, i) # readable es"
| "readable ((p, Inl e) # es) = readable es"

subsection \<open>A concrete configuration and concrete environments\<close>

definition demo_args :: args where
  "demo_args =
     \<lparr>name = Some ''app'', pid = None, max_mem_mb = Some 100, max_cpu = Some 50,
      interval = 15, service = Some ''app'', start_cmd = Some ''app start'',
      webhook = Some ''http://hook'', cooldown = 300\<rparr>"

text \<open>
  One process, pid 7, named \<open>app\<close>, using 150 MB and 10 percent; every command succeeds;
  each external call takes one second, starting at second 1000.
\<close>

definition demo_env :: env where
  "demo_env =
     \<lparr>clock = (\<lambda>h. 1000 + real (length h)),
      process_iter = (\<lambda>h. [(7, Inr \<lparr>info_name = Some ''app'', info_cmdline = Some [''/usr/bin/app'', ''-d'']\<rparr>)]),
      open_process = (\<lambda>h s. Inr 7),
      memory_rss = (\<lambda>h p. Inr (150 * 1024 ^ 2)),
      cpu_percent = (\<lambda>h p. Inr 10),
      proc_name = (\<lambda>h p. Inr ''app''),
      terminate = (\<lambda>h p. None),
      wait = (\<lambda>h p t. None),
      kill = (\<lambda>h p. None),
      run_systemctl = (\<lambda>h s. None),
      run_shell = (\<lambda>h c. None),
      popen = (\<lambda>h c. None),
      post = (\<lambda>h u n. None),
      requests_installed = True,
      dunder_main = False,
      parse_args = None\<rparr>"

text \<open>The same, with a service manager and a shell whose commands exit with status 1.\<close>

definition failing_env :: env where
  "failing_env =
     demo_env\<lparr>run_systemctl := (\<lambda>h s. Some (CalledProcessError 1)),
              run_shell := (\<lambda>h c. Some (CalledProcessError 1))\<rparr>"

text \<open>The same as \<open>demo_env\<close>, with a process that ignores the termination signal.\<close>

definition stubborn_env :: env where
  "stubborn_env = demo_env\<lparr>wait := (\<lambda>h p t. Some TimeoutExpired)\<rparr>"

text \<open>No process matches.\<close>

definition empty_env :: env where
  "empty_env = demo_env\<lparr>process_iter := (\<lambda>h. [])\<rparr>"

definition empty_failing_env :: env where
  "empty_failing_env = failing_env\<lparr>process_iter := (\<lambda>h. [])\<rparr>"

text \<open>Every strategy fails: the commands exit with status 1 and the signal is refused.\<close>

definition denied_env :: env where
  "denied_env = failing_env\<lparr>terminate := (\<lambda>h p. Some AccessDenied)\<rparr>"

text \<open>
  A busier process table: two matches (by name, and by command line), two entries that
  cannot be read, and a kernel thread with an empty command line.
\<close>

definition crowd_env :: env where
  "crowd_env =
     demo_env\<lparr>process_iter := (\<lambda>h.
       [(1, Inr \<lparr>info_name = Some ''init'', info_cmdline = Some [''/sbin/init'']\<rparr>),
        (2, Inl NoSuchProcess),
        (7, Inr \<lparr>info_name = Some ''app'', info_cmdline = None\<rparr>),
        (9, Inr \<lparr>info_name = Some ''python'', info_cmdline = Some [''python'', ''app.py'']\<rparr>),
        (11, Inl AccessDenied),
        (12, Inr \<lparr>info_name = Some ''kthreadd'', info_cmdline = Some []\<rparr>)])\<rparr>"

text \<open>A command line that gives neither a name nor a pid.\<close>

definition no_selector_args :: args where
  "no_selector_args = demo_args\<lparr>name := None\<rparr>"

text \<open>
  \<open>main\<close> called by code that runs in the \<open>__main__\<close> module (as a call added at
  the end of the file would), with that command line and no process running.
\<close>

definition harness_env :: env where
  "harness_env = empty_env\<lparr>dunder_main := True, parse_args := Some no_selector_args\<rparr>"





section \<open>Properties\<close>

subsection \<open>What each function adds to the history\<close>

lemma command_simps [simp]:
  "command None c h = (Inr (), c # h)"
  "command (Some e) c h = (Inl e, c # h)"
  by (simp_all add: command_def)

lemma bind_exc_simps [simp]:
  "bind_exc (Inl e, h) f = (Inl e, h)"
  "bind_exc (Inr x, h) f = f x h"
  by (simp_all add: bind_exc_def)

lemma restart_via_systemctl_eq:
  "restart_via_systemctl E s h =
     (Inr (run_systemctl E h s = None,
           case run_systemctl E h s of None \<Rightarrow> SystemctlDone | Some e \<Rightarrow> SystemctlFailed e),
      Systemctl s # h)"
  by (simp add: restart_via_systemctl_def split: option.split)

lemma restart_via_command_eq:
  "restart_via_command E c h =
     (Inr (run_shell E h c = None,
           case run_shell E h c of None \<Rightarrow> CommandDone c | Some e \<Rightarrow> CommandFailed c e),
      ShellRun c # h)"
  by (simp add: restart_via_command_def split: option.split)

lemma notify_webhook_eq:
  "notify_webhook E u n h =
     (case u of None \<Rightarrow> h
      | Some url \<Rightarrow> if url \<noteq> [] \<and> requests_installed E then Post url n # h else h)"
  by (cases u; cases "post E h (the u) n") (simp_all add: notify_webhook_def)

lemma dispatches_append:
  "dispatches E a la (n2 @ n1) h = dispatches E a la n2 (n1 @ h) @ dispatches E a la n1 h"
  by (induction n2) simp_all

lemma dispatches_quiet:
  "\<forall>c \<in> set new. \<not> is_dispatch c \<Longrightarrow> dispatches E a la new h = []"
  by (induction new) simp_all

lemma notify_webhook_new:
  "\<exists>new. notify_webhook E u n h = new @ h \<and> (\<forall>c \<in> set new. \<not> is_dispatch c)"
  by (cases u) (auto simp: notify_webhook_eq)

lemma gate_new:
  "\<exists>b new. gate E a la h = (b, new @ h) \<and> (\<forall>c \<in> set new. \<not> is_dispatch c)
     \<and> (b \<longrightarrow> gate_passed E a la (new @ h))"
  by (cases la) (auto simp: gate_def time_time_def gate_passed_def)

lemma wait_or_kill_new:
  "\<exists>r new. wait_or_kill E p h = (r, new @ h) \<and> (\<forall>c \<in> set new. \<not> is_dispatch c)"
  by (cases "wait E h p 10"; cases "kill E (Wait p 10 # h) p") (simp_all add: wait_or_kill_def)

lemma launch_new:
  "\<exists>r new. launch E sc h = (r, new @ h) \<and> (\<forall>c \<in> set new. \<not> is_dispatch c)"
  by (cases sc; cases "popen E h (the sc)") (simp_all add: launch_def)

lemma launch_eq:
  "launch E sc g =
     (case sc of None \<Rightarrow> Inr ()
      | Some c \<Rightarrow> if c = [] then Inr ()
                  else (case popen E g c of None \<Rightarrow> Inr () | Some e \<Rightarrow> Inl e),
      (case sc of None \<Rightarrow> [] | Some c \<Rightarrow> if c = [] then [] else [Popen c]) @ g)"
  by (cases sc; cases "popen E g (the sc)") (simp_all add: launch_def)

lemma kill_and_start_body_new:
  "\<exists>r new. kill_and_start_body E p sc h = (r, new @ ProcName p # h)
     \<and> (\<forall>c \<in> set new. \<not> is_dispatch c)"
proof (cases "proc_name E h p")
  case (Inl e)
  then show ?thesis by (simp add: kill_and_start_body_def name_call_def)
next
  case (Inr nm)
  let ?h1 = "ProcName p # h"
  show ?thesis
  proof (cases "terminate E ?h1 p")
    case (Some e)
    then have "kill_and_start_body E p sc h = (Inl e, [Terminate p] @ ?h1)"
      using Inr by (simp add: kill_and_start_body_def name_call_def)
    moreover have "\<forall>c \<in> set [Terminate p]. \<not> is_dispatch c" by simp
    ultimately show ?thesis by blast
  next
    case None
    let ?h2 = "Terminate p # ?h1"
    obtain r1 n1 where w: "wait_or_kill E p ?h2 = (r1, n1 @ ?h2)" "\<forall>c \<in> set n1. \<not> is_dispatch c"
      using wait_or_kill_new by blast
    show ?thesis
    proof (cases r1)
      case (Inl e)
      then have "kill_and_start_body E p sc h = (Inl e, (n1 @ [Terminate p]) @ ?h1)"
        using Inr None w by (simp add: kill_and_start_body_def name_call_def)
      moreover have "\<forall>c \<in> set (n1 @ [Terminate p]). \<not> is_dispatch c" using w(2) by simp
      ultimately show ?thesis by blast
    next
      case (Inr u)
      obtain r2 n2 where l: "launch E sc (n1 @ ?h2) = (r2, n2 @ n1 @ ?h2)"
          "\<forall>c \<in> set n2. \<not> is_dispatch c"
        using launch_new by blast
      have "kill_and_start_body E p sc h = (r2, (n2 @ n1 @ [Terminate p]) @ ?h1)"
        using \<open>proc_name E h p = Inr nm\<close> None w Inr l
        by (simp add: kill_and_start_body_def name_call_def)
      moreover have "\<forall>c \<in> set (n2 @ n1 @ [Terminate p]). \<not> is_dispatch c"
        using w(2) l(2) by auto
      ultimately show ?thesis by blast
    qed
  qed
qed

lemma kill_and_start_new:
  "\<exists>ok m new. kill_and_start E p sc h = (Inr (ok, m), new @ ProcName p # h)
     \<and> (\<forall>c \<in> set new. \<not> is_dispatch c)"
proof -
  obtain r new where b: "kill_and_start_body E p sc h = (r, new @ ProcName p # h)"
      "\<forall>c \<in> set new. \<not> is_dispatch c"
    using kill_and_start_body_new by blast
  then show ?thesis by (cases r) (auto simp: kill_and_start_def)
qed

lemma step_service_new:
  "\<exists>taken new. step_service E a la h = (Inr taken, new @ h)
     \<and> (dispatches E a la new h = [] \<and> \<not> taken
        \<or> (\<exists>s. service a = Some s \<and> s \<noteq> [] \<and> dispatches E a la new h = [(Systemctl s, taken, True)]))"
proof (cases "truthy_str (service a)")
  case False
  then have "step_service E a la h = (Inr False, [] @ h)" by (simp add: step_service_def)
  then show ?thesis by (metis dispatches.simps(1))
next
  case True
  then obtain s where s: "service a = Some s" "s \<noteq> []" by (cases "service a") auto
  obtain b n where g: "gate E a la h = (b, n @ h)" "\<forall>c \<in> set n. \<not> is_dispatch c"
      "b \<longrightarrow> gate_passed E a la (n @ h)"
    using gate_new by blast
  show ?thesis
  proof (cases b)
    case False
    then have "step_service E a la h = (Inr False, n @ h)"
      using True s g by (simp add: step_service_def)
    then show ?thesis using dispatches_quiet [OF g(2)] by blast
  next
    case True
    let ?ok = "run_systemctl E (n @ h) s = None"
    have "step_service E a la h = (Inr ?ok, (Systemctl s # n) @ h)"
      using True \<open>truthy_str (service a)\<close> s g
      by (simp add: step_service_def restart_via_systemctl_eq split: option.split)
    moreover have "dispatches E a la (Systemctl s # n) h = [(Systemctl s, ?ok, True)]"
      using True g(3) dispatches_quiet [OF g(2)] by simp
    ultimately show ?thesis using s by blast
  qed
qed

lemma step_start_cmd_new:
  "\<exists>taken new. step_start_cmd E a la taken0 h = (Inr taken, new @ h)
     \<and> (dispatches E a la new h = [] \<and> taken = taken0
        \<or> \<not> taken0 \<and> (\<exists>c. start_cmd a = Some c \<and> c \<noteq> []
             \<and> dispatches E a la new h = [(ShellRun c, taken, True)]))"
proof (cases "\<not> taken0 \<and> truthy_str (start_cmd a)")
  case False
  then have "step_start_cmd E a la taken0 h = (Inr taken0, [] @ h)"
    by (auto simp: step_start_cmd_def)
  then show ?thesis by (metis dispatches.simps(1))
next
  case True
  then obtain c where c: "start_cmd a = Some c" "c \<noteq> []" by (cases "start_cmd a") auto
  obtain b n where g: "gate E a la h = (b, n @ h)" "\<forall>c \<in> set n. \<not> is_dispatch c"
      "b \<longrightarrow> gate_passed E a la (n @ h)"
    using gate_new by blast
  show ?thesis
  proof (cases b)
    case False
    then have "step_start_cmd E a la taken0 h = (Inr taken0, n @ h)"
      using True c g by (simp add: step_start_cmd_def)
    then show ?thesis using dispatches_quiet [OF g(2)] by blast
  next
    case b: True
    let ?ok = "run_shell E (n @ h) c = None"
    have "step_start_cmd E a la taken0 h = (Inr ?ok, (ShellRun c # n) @ h)"
      using True b c g
      by (simp add: step_start_cmd_def restart_via_command_eq split: option.split)
    moreover have "dispatches E a la (ShellRun c # n) h = [(ShellRun c, ?ok, True)]"
      using b g(3) dispatches_quiet [OF g(2)] by simp
    ultimately show ?thesis using c True by blast
  qed
qed

lemma step_kill_new:
  "\<exists>taken new. step_kill E a la p taken0 h = (Inr taken, new @ h)
     \<and> (dispatches E a la new h = []
        \<or> \<not> taken0 \<and> dispatches E a la new h = [(ProcName p, False, True)])"
proof (cases taken0)
  case True
  then have "step_kill E a la p taken0 h = (Inr taken0, [] @ h)"
    by (simp add: step_kill_def)
  then show ?thesis by (metis dispatches.simps(1))
next
  case False
  obtain b n where g: "gate E a la h = (b, n @ h)" "\<forall>c \<in> set n. \<not> is_dispatch c"
      "b \<longrightarrow> gate_passed E a la (n @ h)"
    using gate_new by blast
  show ?thesis
  proof (cases b)
    case b: False
    then have "step_kill E a la p taken0 h = (Inr taken0, n @ h)"
      using False g by (simp add: step_kill_def)
    then show ?thesis using dispatches_quiet [OF g(2)] by blast
  next
    case b: True
    obtain ok m k where k: "kill_and_start E p (start_cmd a) (n @ h) = (Inr (ok, m), k @ ProcName p # n @ h)"
        "\<forall>c \<in> set k. \<not> is_dispatch c"
      using kill_and_start_new by blast
    have "step_kill E a la p taken0 h = (Inr ok, (k @ ProcName p # n) @ h)"
      using False b g k by (simp add: step_kill_def)
    moreover have "dispatches E a la (k @ ProcName p # n) h = [(ProcName p, False, True)]"
      using b g(3) dispatches_quiet [OF g(2)] dispatches_quiet [OF k(2)]
      by (simp add: dispatches_append)
    ultimately show ?thesis using False by blast
  qed
qed

lemma handle_trip_new:
  "\<exists>t new D1 D2 D3. handle_trip E a la p m c h = (Inr (Some t), new @ h)
     \<and> dispatches E a la new h = D3 @ D2 @ D1
     \<and> (D1 = [] \<or> (\<exists>s ok. service a = Some s \<and> s \<noteq> [] \<and> D1 = [(Systemctl s, ok, True)]
                     \<and> (ok \<longrightarrow> D2 = [] \<and> D3 = [])))
     \<and> (D2 = [] \<or> (\<exists>c ok. start_cmd a = Some c \<and> c \<noteq> [] \<and> D2 = [(ShellRun c, ok, True)]
                     \<and> (ok \<longrightarrow> D3 = [])))
     \<and> (D3 = [] \<or> D3 = [(ProcName p, False, True)])"
proof -
  obtain t1 n1 where s1: "step_service E a la h = (Inr t1, n1 @ h)"
    and d1: "dispatches E a la n1 h = [] \<and> \<not> t1
        \<or> (\<exists>s. service a = Some s \<and> s \<noteq> [] \<and> dispatches E a la n1 h = [(Systemctl s, t1, True)])"
    using step_service_new by blast
  obtain t2 n2 where s2: "step_start_cmd E a la t1 (n1 @ h) = (Inr t2, n2 @ n1 @ h)"
    and d2: "dispatches E a la n2 (n1 @ h) = [] \<and> t2 = t1
        \<or> \<not> t1 \<and> (\<exists>c. start_cmd a = Some c \<and> c \<noteq> []
             \<and> dispatches E a la n2 (n1 @ h) = [(ShellRun c, t2, True)])"
    using step_start_cmd_new by blast
  obtain t3 n3 where s3: "step_kill E a la p t2 (n2 @ n1 @ h) = (Inr t3, n3 @ n2 @ n1 @ h)"
    and d3: "dispatches E a la n3 (n2 @ n1 @ h) = []
        \<or> \<not> t2 \<and> dispatches E a la n3 (n2 @ n1 @ h) = [(ProcName p, False, True)]"
    using step_kill_new by blast
  obtain nn where nn: "notify_webhook E (webhook a) (Restarted (name a) p m c) (n3 @ n2 @ n1 @ h)
        = nn @ n3 @ n2 @ n1 @ h" "\<forall>c \<in> set nn. \<not> is_dispatch c"
    using notify_webhook_new by blast
  let ?new = "TimeTime # nn @ n3 @ n2 @ n1"
  have "handle_trip E a la p m c h = (Inr (Some (clock E (nn @ n3 @ n2 @ n1 @ h))), ?new @ h)"
    using s1 s2 s3 nn(1) by (simp add: handle_trip_def time_time_def)
  moreover have "dispatches E a la ?new h
      = dispatches E a la n3 (n2 @ n1 @ h) @ dispatches E a la n2 (n1 @ h) @ dispatches E a la n1 h"
    using dispatches_quiet [OF nn(2)] by (simp add: dispatches_append)
  ultimately show ?thesis using d1 d2 d3 by blast
qed

lemma handle_trip_ends:
  "\<exists>h3. suffix h h3
     \<and> handle_trip E a la p m c h =
         (Inr (Some (clock E (notify_webhook E (webhook a) (Restarted (name a) p m c) h3))),
          TimeTime # notify_webhook E (webhook a) (Restarted (name a) p m c) h3)"
proof -
  obtain t1 n1 where s1: "step_service E a la h = (Inr t1, n1 @ h)"
    using step_service_new by blast
  obtain t2 n2 where s2: "step_start_cmd E a la t1 (n1 @ h) = (Inr t2, n2 @ n1 @ h)"
    using step_start_cmd_new by blast
  obtain t3 n3 where s3: "step_kill E a la p t2 (n2 @ n1 @ h) = (Inr t3, n3 @ n2 @ n1 @ h)"
    using step_kill_new by blast
  have "suffix h (n3 @ n2 @ n1 @ h)"
    by (simp add: suffix_def)
  moreover have "handle_trip E a la p m c h =
         (Inr (Some (clock E (notify_webhook E (webhook a) (Restarted (name a) p m c) (n3 @ n2 @ n1 @ h)))),
          TimeTime # notify_webhook E (webhook a) (Restarted (name a) p m c) (n3 @ n2 @ n1 @ h))"
    using s1 s2 s3 by (simp add: handle_trip_def time_time_def)
  ultimately show ?thesis by blast
qed

text \<open>Unfolding for evaluation at concrete inputs.\<close>

lemmas demo_defs = demo_args_def demo_env_def

lemmas run_defs = handle_trip_def step_service_def step_start_cmd_def step_kill_def gate_def
  time_time_def restart_via_systemctl_eq restart_via_command_eq notify_webhook_eq
  kill_and_start_def kill_and_start_body_def name_call_def wait_or_kill_def launch_def

subsection \<open>The order of the strategies\<close>

lemma clock_append:
  "\<forall>g c. clock E g \<le> clock E (c # g) \<Longrightarrow> clock E h \<le> clock E (n @ h)"
proof (induction n)
  case Nil
  then show ?case by simp
next
  case (Cons c n)
  have a: "clock E (n @ h) \<le> clock E (c # n @ h)" using Cons.prems by blast
  have b: "clock E h \<le> clock E (n @ h)" using Cons.IH Cons.prems .
  from a b show ?case by simp
qed

lemma gate_stays_open:
  assumes "\<forall>g c. clock E g \<le> clock E (c # g)" and "fst (gate E a la h)"
  shows "fst (gate E a la (n @ h))"
proof (cases la)
  case None
  then show ?thesis by (simp add: gate_def)
next
  case (Some l)
  show ?thesis
  proof (cases "l = 0")
    case True
    then show ?thesis using Some by (simp add: gate_def)
  next
    case False
    have "clock E h \<le> clock E (n @ h)" using clock_append [OF assms(1)] .
    then show ?thesis using assms(2) Some False by (simp add: gate_def time_time_def)
  qed
qed

lemma gate_open:
  assumes "fst (gate E a la h)"
  shows "\<exists>n. gate E a la h = (True, n @ h) \<and> (\<forall>c \<in> set n. \<not> is_dispatch c)
     \<and> gate_passed E a la (n @ h)"
proof -
  obtain b n where g: "gate E a la h = (b, n @ h)" "\<forall>c \<in> set n. \<not> is_dispatch c"
      "b \<longrightarrow> gate_passed E a la (n @ h)"
    using gate_new by blast
  then have "b" using assms by simp
  then show ?thesis using g by auto
qed

lemma step_service_open:
  assumes "fst (gate E a la h)"
  shows "\<exists>taken new. step_service E a la h = (Inr taken, new @ h)
     \<and> dispatches E a la new h =
         (case service a of None \<Rightarrow> []
          | Some s \<Rightarrow> if s = [] then [] else [(Systemctl s, taken, True)])
     \<and> (\<not> truthy_str (service a) \<longrightarrow> \<not> taken)"
proof (cases "truthy_str (service a)")
  case False
  then have "step_service E a la h = (Inr False, [] @ h)" by (simp add: step_service_def)
  moreover have "dispatches E a la [] h =
         (case service a of None \<Rightarrow> []
          | Some s \<Rightarrow> if s = [] then [] else [(Systemctl s, False, True)])"
    using False by (cases "service a") simp_all
  ultimately show ?thesis using False by blast
next
  case True
  then obtain s where s: "service a = Some s" "s \<noteq> []" by (cases "service a") auto
  obtain n where g: "gate E a la h = (True, n @ h)" "\<forall>c \<in> set n. \<not> is_dispatch c"
      "gate_passed E a la (n @ h)"
    using gate_open [OF assms] by blast
  let ?ok = "run_systemctl E (n @ h) s = None"
  have "step_service E a la h = (Inr ?ok, (Systemctl s # n) @ h)"
    using True s g by (simp add: step_service_def restart_via_systemctl_eq)
  moreover have "dispatches E a la (Systemctl s # n) h = [(Systemctl s, ?ok, True)]"
    using g(3) dispatches_quiet [OF g(2)] by simp
  ultimately show ?thesis using s True by auto
qed

lemma step_start_cmd_open:
  assumes "fst (gate E a la h)"
  shows "\<exists>taken new. step_start_cmd E a la taken0 h = (Inr taken, new @ h)
     \<and> dispatches E a la new h =
         (case start_cmd a of None \<Rightarrow> []
          | Some c \<Rightarrow> if c = [] \<or> taken0 then [] else [(ShellRun c, taken, True)])
     \<and> (taken0 \<or> \<not> truthy_str (start_cmd a) \<longrightarrow> taken = taken0)"
proof (cases "\<not> taken0 \<and> truthy_str (start_cmd a)")
  case False
  then have "step_start_cmd E a la taken0 h = (Inr taken0, [] @ h)"
    by (auto simp: step_start_cmd_def)
  moreover have "dispatches E a la [] h =
         (case start_cmd a of None \<Rightarrow> []
          | Some c \<Rightarrow> if c = [] \<or> taken0 then [] else [(ShellRun c, taken0, True)])"
    using False by (cases "start_cmd a") auto
  ultimately show ?thesis using False by blast
next
  case True
  then obtain c where c: "start_cmd a = Some c" "c \<noteq> []" by (cases "start_cmd a") auto
  obtain n where g: "gate E a la h = (True, n @ h)" "\<forall>c \<in> set n. \<not> is_dispatch c"
      "gate_passed E a la (n @ h)"
    using gate_open [OF assms] by blast
  let ?ok = "run_shell E (n @ h) c = None"
  have "step_start_cmd E a la taken0 h = (Inr ?ok, (ShellRun c # n) @ h)"
    using True c g by (simp add: step_start_cmd_def restart_via_command_eq)
  moreover have "dispatches E a la (ShellRun c # n) h = [(ShellRun c, ?ok, True)]"
    using g(3) dispatches_quiet [OF g(2)] by simp
  ultimately show ?thesis using c True by auto
qed

lemma step_kill_open:
  assumes "fst (gate E a la h)"
  shows "\<exists>taken new. step_kill E a la p taken0 h = (Inr taken, new @ h)
     \<and> dispatches E a la new h = (if taken0 then [] else [(ProcName p, False, True)])"
proof (cases taken0)
  case True
  then have "step_kill E a la p taken0 h = (Inr taken0, [] @ h)"
    by (simp add: step_kill_def)
  moreover have "dispatches E a la [] h = (if taken0 then [] else [(ProcName p, False, True)])"
    using True by simp
  ultimately show ?thesis by blast
next
  case False
  obtain n where g: "gate E a la h = (True, n @ h)" "\<forall>c \<in> set n. \<not> is_dispatch c"
      "gate_passed E a la (n @ h)"
    using gate_open [OF assms] by blast
  obtain ok m k where k: "kill_and_start E p (start_cmd a) (n @ h) = (Inr (ok, m), k @ ProcName p # n @ h)"
      "\<forall>c \<in> set k. \<not> is_dispatch c"
    using kill_and_start_new by blast
  have "step_kill E a la p taken0 h = (Inr ok, (k @ ProcName p # n) @ h)"
    using False g k by (simp add: step_kill_def)
  moreover have "dispatches E a la (k @ ProcName p # n) h = [(ProcName p, False, True)]"
    using g(3) dispatches_quiet [OF g(2)] dispatches_quiet [OF k(2)]
    by (simp add: dispatches_append)
  ultimately show ?thesis using False by auto
qed

text \<open>
  With the gate open when the trip is handled and a clock that does not go back, the
  three steps in full: what each calls, and the \<open>action_taken\<close> it leaves.
\<close>

lemma handle_trip_open:
  assumes "\<forall>g c. clock E g \<le> clock E (c # g)" and "fst (gate E a la h)"
    and "snd (handle_trip E a la p m c h) = new @ h"
  shows "\<exists>t1 t2.
     dispatches E a la new h =
       (if t2 then [] else [(ProcName p, False, True)])
       @ (case start_cmd a of None \<Rightarrow> []
          | Some c \<Rightarrow> if c = [] \<or> t1 then [] else [(ShellRun c, t2, True)])
       @ (case service a of None \<Rightarrow> []
          | Some s \<Rightarrow> if s = [] then [] else [(Systemctl s, t1, True)])
     \<and> (\<not> truthy_str (service a) \<longrightarrow> \<not> t1)
     \<and> (t1 \<or> \<not> truthy_str (start_cmd a) \<longrightarrow> t2 = t1)"
proof -
  obtain t1 n1 where s1: "step_service E a la h = (Inr t1, n1 @ h)"
    and d1: "dispatches E a la n1 h =
         (case service a of None \<Rightarrow> []
          | Some s \<Rightarrow> if s = [] then [] else [(Systemctl s, t1, True)])"
    and f1: "\<not> truthy_str (service a) \<longrightarrow> \<not> t1"
    using step_service_open [OF assms(2)] by blast
  have g1: "fst (gate E a la (n1 @ h))" using gate_stays_open [OF assms(1,2)] .
  obtain t2 n2 where s2: "step_start_cmd E a la t1 (n1 @ h) = (Inr t2, n2 @ n1 @ h)"
    and d2: "dispatches E a la n2 (n1 @ h) =
         (case start_cmd a of None \<Rightarrow> []
          | Some c \<Rightarrow> if c = [] \<or> t1 then [] else [(ShellRun c, t2, True)])"
    and f2: "t1 \<or> \<not> truthy_str (start_cmd a) \<longrightarrow> t2 = t1"
    using step_start_cmd_open [OF g1] by blast
  have g2: "fst (gate E a la (n2 @ n1 @ h))"
    using gate_stays_open [OF assms(1,2), of "n2 @ n1"] by simp
  obtain t3 n3 where s3: "step_kill E a la p t2 (n2 @ n1 @ h) = (Inr t3, n3 @ n2 @ n1 @ h)"
    and d3: "dispatches E a la n3 (n2 @ n1 @ h) = (if t2 then [] else [(ProcName p, False, True)])"
    using step_kill_open [OF g2] by blast
  obtain nn where nn: "notify_webhook E (webhook a) (Restarted (name a) p m c) (n3 @ n2 @ n1 @ h)
        = nn @ n3 @ n2 @ n1 @ h" "\<forall>c \<in> set nn. \<not> is_dispatch c"
    using notify_webhook_new by blast
  have "snd (handle_trip E a la p m c h) = (TimeTime # nn @ n3 @ n2 @ n1) @ h"
    using s1 s2 s3 nn(1) by (simp add: handle_trip_def time_time_def)
  then have new: "new = TimeTime # nn @ n3 @ n2 @ n1" using assms(3) by simp
  have "dispatches E a la new h
      = dispatches E a la n3 (n2 @ n1 @ h) @ dispatches E a la n2 (n1 @ h) @ dispatches E a la n1 h"
    unfolding new using dispatches_quiet [OF nn(2)] by (simp add: dispatches_append)
  then show ?thesis using d1 d2 d3 f1 f2 by auto
qed

lemma handle_trip_down_the_plan:
  assumes "\<forall>g c. clock E g \<le> clock E (c # g)" and "fst (gate E a la h)"
    and "snd (handle_trip E a la p m c h) = new @ h"
  shows "dispatches E a la new h \<noteq> []
     \<and> prefix (rev (map fst (dispatches E a la new h))) (plan a p)
     \<and> (fst (snd (hd (dispatches E a la new h))) \<or> fst (hd (dispatches E a la new h)) = ProcName p)"
proof -
  obtain t1 t2 where D: "dispatches E a la new h =
       (if t2 then [] else [(ProcName p, False, True)])
       @ (case start_cmd a of None \<Rightarrow> []
          | Some c \<Rightarrow> if c = [] \<or> t1 then [] else [(ShellRun c, t2, True)])
       @ (case service a of None \<Rightarrow> []
          | Some s \<Rightarrow> if s = [] then [] else [(Systemctl s, t1, True)])"
    and f1: "\<not> truthy_str (service a) \<longrightarrow> \<not> t1"
    and f2: "t1 \<or> \<not> truthy_str (start_cmd a) \<longrightarrow> t2 = t1"
    using handle_trip_open [OF assms] by blast
  show ?thesis
    unfolding D plan_def using f1 f2
    by (cases "service a"; cases "start_cmd a"; cases t1; cases t2) (auto simp: prefix_def)
qed


lemma handle_trip_service_ok:
  assumes "service a = Some s" "s \<noteq> []" "gate E a la h = (True, g)" "run_systemctl E g s = None"
  shows "handle_trip E a la p m c h =
           (Inr (Some (clock E (notify_webhook E (webhook a) (Restarted (name a) p m c) (Systemctl s # g)))),
            TimeTime # notify_webhook E (webhook a) (Restarted (name a) p m c) (Systemctl s # g))"
  using assms
  by (simp add: handle_trip_def step_service_def step_start_cmd_def step_kill_def
      restart_via_systemctl_eq time_time_def)

text \<open>
  C4. For one trip, the strategy calls made are, in this order, a selection of service
  restart, start command and kill_and_start; every strategy call but the last one failed
  (the escalation stops at the first success); and when the service restart runs and
  succeeds, it is the only strategy call of the trip. When the gate is open as the trip is
  handled (and the clock does not go back), the calls are the plan from its start with no
  strategy skipped, and they end only with a success or with the kill fallback: each
  configured strategy is run after the failure of the one before it.
\<close>

theorem escalation_order:
  assumes "snd (handle_trip E a la p m c h) = new @ h"
  shows "subseq (rev (map fst (dispatches E a la new h))) (plan a p)
     \<and> (\<forall>d \<in> set (tl (dispatches E a la new h)). \<not> fst (snd d))
     \<and> (service a = Some s \<and> s \<noteq> [] \<and> gate E a la h = (True, g) \<and> run_systemctl E g s = None
          \<longrightarrow> map fst (dispatches E a la new h) = [Systemctl s])
     \<and> ((\<forall>g c. clock E g \<le> clock E (c # g)) \<and> fst (gate E a la h)
          \<longrightarrow> dispatches E a la new h \<noteq> []
              \<and> prefix (rev (map fst (dispatches E a la new h))) (plan a p)
              \<and> (fst (snd (hd (dispatches E a la new h)))
                  \<or> fst (hd (dispatches E a la new h)) = ProcName p))"
proof -
  obtain t new' D1 D2 D3 where ht: "handle_trip E a la p m c h = (Inr (Some t), new' @ h)"
    and D: "dispatches E a la new' h = D3 @ D2 @ D1"
    and D1: "D1 = [] \<or> (\<exists>s ok. service a = Some s \<and> s \<noteq> [] \<and> D1 = [(Systemctl s, ok, True)]
                     \<and> (ok \<longrightarrow> D2 = [] \<and> D3 = []))"
    and D2: "D2 = [] \<or> (\<exists>c ok. start_cmd a = Some c \<and> c \<noteq> [] \<and> D2 = [(ShellRun c, ok, True)]
                     \<and> (ok \<longrightarrow> D3 = []))"
    and D3: "D3 = [] \<or> D3 = [(ProcName p, False, True)]"
    using handle_trip_new by blast
  from ht assms have new: "new' = new" by simp
  have e1: "subseq (rev (map fst D1))
      (case service a of None \<Rightarrow> [] | Some s \<Rightarrow> if s = [] then [] else [Systemctl s])"
    using D1 by auto
  have e2: "subseq (rev (map fst D2))
      (case start_cmd a of None \<Rightarrow> [] | Some c \<Rightarrow> if c = [] then [] else [ShellRun c])"
    using D2 by auto
  have e3: "subseq (rev (map fst D3)) [ProcName p]"
    using D3 by auto
  have "subseq (rev (map fst D1) @ rev (map fst D2) @ rev (map fst D3)) (plan a p)"
    unfolding plan_def by (intro list_emb_append_mono e1 e2 e3)
  then have P1: "subseq (rev (map fst (dispatches E a la new h))) (plan a p)"
    using D new by simp
  have P2: "\<forall>d \<in> set (tl (dispatches E a la new h)). \<not> fst (snd d)"
    using D D1 D2 D3 new by auto
  have P3: "map fst (dispatches E a la new h) = [Systemctl s]"
    if "service a = Some s" "s \<noteq> []" "gate E a la h = (True, g)" "run_systemctl E g s = None"
  proof -
    obtain b n where g: "gate E a la h = (b, n @ h)" "\<forall>c \<in> set n. \<not> is_dispatch c"
      using gate_new by blast
    obtain nn where nn: "notify_webhook E (webhook a) (Restarted (name a) p m c) (Systemctl s # g)
        = nn @ Systemctl s # g" "\<forall>c \<in> set nn. \<not> is_dispatch c"
      using notify_webhook_new by blast
    from g that have gn: "g = n @ h" by simp
    have "snd (handle_trip E a la p m c h) = (TimeTime # nn @ Systemctl s # n) @ h"
      using handle_trip_service_ok [OF that] nn(1) gn by simp
    then have "new = TimeTime # nn @ Systemctl s # n" using assms by simp
    then show ?thesis
      using dispatches_quiet [OF nn(2)] dispatches_quiet [OF g(2)]
      by (simp add: dispatches_append)
  qed
  have P4: "dispatches E a la new h \<noteq> []
     \<and> prefix (rev (map fst (dispatches E a la new h))) (plan a p)
     \<and> (fst (snd (hd (dispatches E a la new h))) \<or> fst (hd (dispatches E a la new h)) = ProcName p)"
    if "\<forall>g c. clock E g \<le> clock E (c # g)" "fst (gate E a la h)"
    using handle_trip_down_the_plan [OF that assms] .
  show ?thesis using P1 P2 P3 P4 by blast
qed

theorem escalation_order_witness:
  "snd (handle_trip demo_env demo_args None 7 150 10 [])
     = [TimeTime, Post ''http://hook'' (Restarted (Some ''app'') 7 150 10), Systemctl ''app'']
   \<and> map fst (dispatches demo_env demo_args None
        [TimeTime, Post ''http://hook'' (Restarted (Some ''app'') 7 150 10), Systemctl ''app''] [])
     = [Systemctl ''app'']
   \<and> plan demo_args 7 = [Systemctl ''app'', ShellRun ''app start'', ProcName 7]
   \<and> snd (handle_trip failing_env demo_args None 7 150 10 [])
     = [TimeTime, Post ''http://hook'' (Restarted (Some ''app'') 7 150 10),
        Popen ''app start'', Wait 7 10, Terminate 7, ProcName 7,
        ShellRun ''app start'', Systemctl ''app'']
   \<and> rev (map fst (dispatches failing_env demo_args None
        [TimeTime, Post ''http://hook'' (Restarted (Some ''app'') 7 150 10),
         Popen ''app start'', Wait 7 10, Terminate 7, ProcName 7,
         ShellRun ''app start'', Systemctl ''app''] []))
     = [Systemctl ''app'', ShellRun ''app start'', ProcName 7]
   \<and> prefix [Systemctl ''app'', ShellRun ''app start'', ProcName 7] (plan demo_args 7)"
proof -
  have h: "snd (handle_trip demo_env demo_args None 7 150 10 [])
     = [TimeTime, Post ''http://hook'' (Restarted (Some ''app'') 7 150 10), Systemctl ''app''] @ []"
    by (simp add: run_defs demo_defs)
  have s: "service demo_args = Some ''app'' \<and> ''app'' \<noteq> [] \<and> gate demo_env demo_args None [] = (True, [])
      \<and> run_systemctl demo_env [] ''app'' = None"
    by (simp add: demo_defs gate_def)
  have hf: "snd (handle_trip failing_env demo_args None 7 150 10 [])
     = [TimeTime, Post ''http://hook'' (Restarted (Some ''app'') 7 150 10),
        Popen ''app start'', Wait 7 10, Terminate 7, ProcName 7,
        ShellRun ''app start'', Systemctl ''app''] @ []"
    by (simp add: run_defs demo_defs failing_env_def)
  have o: "(\<forall>g c. clock failing_env g \<le> clock failing_env (c # g))
      \<and> fst (gate failing_env demo_args None [])"
    by (simp add: demo_defs failing_env_def gate_def)
  show ?thesis
    using escalation_order [OF h, of "''app''" "[]"] escalation_order [OF hf, of "''app''" "[]"] h s hf o
    by (simp add: plan_def demo_defs failing_env_def)
qed

subsection \<open>The cooldown gate\<close>

lemma gated_append:
  "gated E a la (n2 @ n1) h \<longleftrightarrow> gated E a la n2 (n1 @ h) \<and> gated E a la n1 h"
  by (auto simp: gated_def dispatches_append)

lemma gated_quiet: "\<forall>c \<in> set new. \<not> is_dispatch c \<Longrightarrow> gated E a la new h"
  by (simp add: gated_def dispatches_quiet)


lemma not_found_gated:
  "\<exists>la' new. not_found E a la h = (Inr la', new @ h)
     \<and> (la' = la \<or> (\<exists>g. la' = Some (clock E g))) \<and> gated E a la new h"
proof (cases "truthy_str (start_cmd a)")
  case False
  then have "not_found E a la h = (Inr la, [] @ h)" by (simp add: not_found_def)
  moreover have "gated E a la [] h" by (simp add: gated_def)
  ultimately show ?thesis by blast
next
  case True
  then obtain c where c: "start_cmd a = Some c" by (cases "start_cmd a") auto
  obtain b n where g: "gate E a la h = (b, n @ h)" "\<forall>c \<in> set n. \<not> is_dispatch c"
      "b \<longrightarrow> gate_passed E a la (n @ h)"
    using gate_new by blast
  show ?thesis
  proof (cases b)
    case False
    then have "not_found E a la h = (Inr la, n @ h)"
      using True c g by (simp add: not_found_def)
    then show ?thesis using gated_quiet [OF g(2)] by blast
  next
    case b: True
    obtain nn where nn: "notify_webhook E (webhook a) (Started (name a)) (ShellRun c # n @ h)
        = nn @ ShellRun c # n @ h" "\<forall>c \<in> set nn. \<not> is_dispatch c"
      using notify_webhook_new by blast
    have d: "gated E a la (ShellRun c # n) h"
      using b g(3) dispatches_quiet [OF g(2)] by (simp add: gated_def)
    show ?thesis
    proof (cases "run_shell E (n @ h) c = None")
      case False
      then have "not_found E a la h = (Inr la, (ShellRun c # n) @ h)"
        using True b c g by (auto simp: not_found_def restart_via_command_eq)
      then show ?thesis using d by blast
    next
      case ok: True
      then have "not_found E a la h
          = (Inr (Some (clock E (nn @ ShellRun c # n @ h))), (TimeTime # nn @ ShellRun c # n) @ h)"
        using True b c g nn(1) by (simp add: not_found_def restart_via_command_eq time_time_def)
      moreover have "gated E a la (TimeTime # nn @ ShellRun c # n) h"
        using d dispatches_quiet [OF nn(2)] by (simp add: gated_def dispatches_append)
      ultimately show ?thesis by blast
    qed
  qed
qed

subsection \<open>Actions and their spacing\<close>



































subsection \<open>A missing process\<close>

text \<open>
  C5, as amended. The branch for an empty list of processes never raises. With a start
  command configured and the gate open it runs the start command exactly once; when the
  command succeeds, one notification is attempted and \<open>last_action\<close> becomes the time
  read after it; when it fails, nothing is notified and \<open>last_action\<close> stays as it was.
\<close>

theorem not_found_start:
  "(\<exists>la' h'. not_found E a la h = (Inr la', h'))
   \<and> (start_cmd a = Some c \<and> c \<noteq> [] \<and> gate E a la h = (True, g) \<longrightarrow>
        not_found E a la h =
          (if run_shell E g c = None
           then (Inr (Some (clock E (notify_webhook E (webhook a) (Started (name a)) (ShellRun c # g)))),
                 TimeTime # notify_webhook E (webhook a) (Started (name a)) (ShellRun c # g))
           else (Inr la, ShellRun c # g)))"
proof -
  have "\<exists>la' h'. not_found E a la h = (Inr la', h')"
    using not_found_gated by blast
  moreover have "not_found E a la h =
          (if run_shell E g c = None
           then (Inr (Some (clock E (notify_webhook E (webhook a) (Started (name a)) (ShellRun c # g)))),
                 TimeTime # notify_webhook E (webhook a) (Started (name a)) (ShellRun c # g))
           else (Inr la, ShellRun c # g))"
    if "start_cmd a = Some c" "c \<noteq> []" "gate E a la h = (True, g)"
    using that by (auto simp: not_found_def restart_via_command_eq time_time_def)
  ultimately show ?thesis by blast
qed

theorem not_found_start_witness:
  "not_found empty_env demo_args None [ProcessIter]
     = (Inr (Some 1003), [TimeTime, Post ''http://hook'' (Started (Some ''app'')),
          ShellRun ''app start'', ProcessIter])"
proof -
  have s: "start_cmd demo_args = Some ''app start'' \<and> ''app start'' \<noteq> []
      \<and> gate empty_env demo_args None [ProcessIter] = (True, [ProcessIter])"
    by (simp add: demo_defs empty_env_def gate_def)
  show ?thesis
    using not_found_start [of empty_env demo_args None "[ProcessIter]" "''app start''" "[ProcessIter]"] s
    by (simp add: demo_defs empty_env_def notify_webhook_eq)
qed

text \<open>
  C5, as stated, fails: no process matches, a start command is configured and the gate is
  open (no action yet), the start command exits with status 1; it was run once, but
  \<open>last_action\<close> is still unset and no notification was attempted.
\<close>

theorem not_found_failed_start_counterexample:
  "resolve empty_failing_env demo_args [] = (Inr [], [ProcessIter])
   \<and> gate empty_failing_env demo_args None [ProcessIter] = (True, [ProcessIter])
   \<and> tick empty_failing_env demo_args None []
       = (Inr None, [Sleep 15, ShellRun ''app start'', ProcessIter])"
  by (simp add: tick_def resolve_def find_processes_by_name_def not_found_def sleep_def
      run_defs demo_defs empty_failing_env_def failing_env_def)

subsection \<open>What a trip does to the state\<close>

text \<open>
  C10. Whatever the gate and the strategies did, a trip ends by calling notify_webhook
  and then setting \<open>last_action\<close> to the time read after it; with a webhook configured
  and the HTTP client installed, the POST is the call made just before that clock read.
\<close>

theorem trip_always_notifies_and_stamps:
  "\<exists>h3. suffix h h3
     \<and> handle_trip E a la p m c h =
         (Inr (Some (clock E (notify_webhook E (webhook a) (Restarted (name a) p m c) h3))),
          TimeTime # notify_webhook E (webhook a) (Restarted (name a) p m c) h3)
     \<and> notify_webhook E (webhook a) (Restarted (name a) p m c) h3 =
         (case webhook a of
            None \<Rightarrow> h3
          | Some url \<Rightarrow>
              if url \<noteq> [] \<and> requests_installed E
              then Post url (Restarted (name a) p m c) # h3 else h3)"
proof -
  obtain h3 where "suffix h h3"
    "handle_trip E a la p m c h =
         (Inr (Some (clock E (notify_webhook E (webhook a) (Restarted (name a) p m c) h3))),
          TimeTime # notify_webhook E (webhook a) (Restarted (name a) p m c) h3)"
    using handle_trip_ends by blast
  then show ?thesis using notify_webhook_eq by blast
qed

theorem trip_always_notifies_and_stamps_witness:
  "handle_trip denied_env demo_args None 7 150 10 []
     = (Inr (Some 1005),
        [TimeTime, Post ''http://hook'' (Restarted (Some ''app'') 7 150 10),
         Terminate 7, ProcName 7, ShellRun ''app start'', Systemctl ''app''])"
  using trip_always_notifies_and_stamps [of "[]" denied_env demo_args None 7 150 10]
  by (simp add: run_defs demo_defs denied_env_def failing_env_def)

text \<open>
  While the clock stays within the cooldown of \<open>last_action\<close>, a trip makes no call
  but clock reads and the notification: no strategy runs.
\<close>

lemma closed_gate_no_strategy:
  assumes "l \<noteq> 0" and "\<forall>g. clock E g - l \<le> real_of_int (cooldown a)"
  shows "\<exists>k. handle_trip E a (Some l) p m c h =
           (Inr (Some (clock E (notify_webhook E (webhook a) (Restarted (name a) p m c) (k @ h)))),
            TimeTime # notify_webhook E (webhook a) (Restarted (name a) p m c) (k @ h))
         \<and> set k \<subseteq> {TimeTime}"
proof -
  have g: "gate E a (Some l) g = (False, TimeTime # g)" for g
    using assms by (simp add: gate_def time_time_def not_less)
  obtain k1 where k1: "step_service E a (Some l) h = (Inr False, k1 @ h)" "set k1 \<subseteq> {TimeTime}"
  proof (cases "truthy_str (service a)")
    case True
    then have "step_service E a (Some l) h = (Inr False, [TimeTime] @ h)"
      using g by (cases "service a") (simp_all add: step_service_def)
    then show ?thesis using that by simp
  next
    case False
    then have "step_service E a (Some l) h = (Inr False, [] @ h)"
      by (simp add: step_service_def)
    then show ?thesis using that by simp
  qed
  obtain k2 where k2: "step_start_cmd E a (Some l) False (k1 @ h) = (Inr False, k2 @ k1 @ h)"
      "set k2 \<subseteq> {TimeTime}"
  proof (cases "truthy_str (start_cmd a)")
    case True
    then have "step_start_cmd E a (Some l) False (k1 @ h) = (Inr False, [TimeTime] @ k1 @ h)"
      using g by (cases "start_cmd a") (simp_all add: step_start_cmd_def)
    then show ?thesis using that by simp
  next
    case False
    then have "step_start_cmd E a (Some l) False (k1 @ h) = (Inr False, [] @ k1 @ h)"
      by (simp add: step_start_cmd_def)
    then show ?thesis using that by simp
  qed
  have k3: "step_kill E a (Some l) p False (k2 @ k1 @ h) = (Inr False, TimeTime # k2 @ k1 @ h)"
    using g by (simp add: step_kill_def)
  let ?k = "TimeTime # k2 @ k1"
  have "handle_trip E a (Some l) p m c h =
           (Inr (Some (clock E (notify_webhook E (webhook a) (Restarted (name a) p m c) (?k @ h)))),
            TimeTime # notify_webhook E (webhook a) (Restarted (name a) p m c) (?k @ h))"
    using k1(1) k2(1) k3 by (simp add: handle_trip_def time_time_def)
  moreover have "set ?k \<subseteq> {TimeTime}" using k1(2) k2(2) by auto
  ultimately show ?thesis by blast
qed

text \<open>
  The three gate checks of one trip read the clock one after the other, so the gate can be
  closed at the first two and open at the third: the kill fallback then runs although
  neither the service restart nor the start command was tried.
\<close>

lemma gate_opens_during_escalation:
  "handle_trip demo_env demo_args (Some 701.5) 7 150 10 []
     = (Inr (Some 1008),
        [TimeTime, Post ''http://hook'' (Restarted (Some ''app'') 7 150 10),
         Popen ''app start'', Wait 7 10, Terminate 7, ProcName 7,
         TimeTime, TimeTime, TimeTime])"
  by (simp add: run_defs demo_defs)

text \<open>
  C2 fails on the code. The scenario of the specification: service and start command
  configured, cooldown 300, last action 10 seconds ago. The three gate checks read the
  clock and run no strategy, but the notification is posted and \<open>last_action\<close> moves
  from 990 to 1004.
\<close>

theorem closed_gate_trip_changes_state:
  "handle_trip demo_env demo_args (Some 990) 7 150 10 []
     = (Inr (Some 1004),
        [TimeTime, Post ''http://hook'' (Restarted (Some ''app'') 7 150 10),
         TimeTime, TimeTime, TimeTime])"
  by (simp add: run_defs demo_defs)

subsection \<open>Failures of the strategies\<close>

lemma kill_and_start_fst:
  "fst (kill_and_start E p sc h) =
     Inr (case fst (kill_and_start_body E p sc h) of
            Inr u \<Rightarrow> (True, KillStartDone)
          | Inl e \<Rightarrow> (False, Str e))"
  by (cases "kill_and_start_body E p sc h"; cases "fst (kill_and_start_body E p sc h)")
    (simp_all add: kill_and_start_def)

text \<open>
  C7. No strategy raises: whatever the underlying call does, each returns a pair, and
  when the call raised \<open>e\<close> the pair is \<open>False\<close> with a message carrying \<open>e\<close>.
  Handling a trip never raises either. A failure leads on to the next strategy: with the
  gate open as the trip is handled (and a clock that does not go back), the strategy calls
  follow the plan from its start with none skipped, and a failed service restart or start
  command is never the last call of the trip.
\<close>

theorem strategies_never_raise:
  "fst (restart_via_systemctl E s h) =
      Inr (case run_systemctl E h s of None \<Rightarrow> (True, SystemctlDone)
           | Some e \<Rightarrow> (False, SystemctlFailed e))
   \<and> fst (restart_via_command E c h) =
      Inr (case run_shell E h c of None \<Rightarrow> (True, CommandDone c)
           | Some e \<Rightarrow> (False, CommandFailed c e))
   \<and> fst (kill_and_start E p sc h) =
      Inr (case fst (kill_and_start_body E p sc h) of
             Inr u \<Rightarrow> (True, KillStartDone)
           | Inl e \<Rightarrow> (False, Str e))
   \<and> (\<exists>la'. fst (handle_trip E a la p m' c' h) = Inr la')
   \<and> ((\<forall>g c. clock E g \<le> clock E (c # g)) \<and> fst (gate E a la h)
        \<and> snd (handle_trip E a la p m' c' h) = new @ h
      \<longrightarrow> dispatches E a la new h \<noteq> []
          \<and> prefix (rev (map fst (dispatches E a la new h))) (plan a p)
          \<and> (\<forall>d \<in> set (dispatches E a la new h).
                \<not> fst (snd d) \<and> fst d \<noteq> ProcName p \<longrightarrow> d \<noteq> hd (dispatches E a la new h)))"
proof -
  have "\<exists>la'. fst (handle_trip E a la p m' c' h) = Inr la'"
    using handle_trip_ends [of h E a la p m' c'] by force
  moreover have "dispatches E a la new h \<noteq> []
          \<and> prefix (rev (map fst (dispatches E a la new h))) (plan a p)
          \<and> (\<forall>d \<in> set (dispatches E a la new h).
                \<not> fst (snd d) \<and> fst d \<noteq> ProcName p \<longrightarrow> d \<noteq> hd (dispatches E a la new h))"
    if "\<forall>g c. clock E g \<le> clock E (c # g)" "fst (gate E a la h)"
      "snd (handle_trip E a la p m' c' h) = new @ h"
    using handle_trip_down_the_plan [OF that] by auto
  moreover have "fst (restart_via_systemctl E s h) =
      Inr (case run_systemctl E h s of None \<Rightarrow> (True, SystemctlDone)
           | Some e \<Rightarrow> (False, SystemctlFailed e))"
    by (cases "run_systemctl E h s") (simp_all add: restart_via_systemctl_eq)
  moreover have "fst (restart_via_command E c h) =
      Inr (case run_shell E h c of None \<Rightarrow> (True, CommandDone c)
           | Some e \<Rightarrow> (False, CommandFailed c e))"
    by (cases "run_shell E h c") (simp_all add: restart_via_command_eq)
  ultimately show ?thesis using kill_and_start_fst [of E p sc h] by blast
qed

theorem strategies_never_raise_witness:
  "fst (restart_via_systemctl denied_env ''app'' []) = Inr (False, SystemctlFailed (CalledProcessError 1))
   \<and> fst (restart_via_command denied_env ''app start'' []) =
       Inr (False, CommandFailed ''app start'' (CalledProcessError 1))
   \<and> fst (kill_and_start denied_env 7 (Some ''app start'') []) = Inr (False, Str AccessDenied)
   \<and> snd (handle_trip denied_env demo_args None 7 150 10 [])
     = [TimeTime, Post ''http://hook'' (Restarted (Some ''app'') 7 150 10),
        Terminate 7, ProcName 7, ShellRun ''app start'', Systemctl ''app'']
   \<and> dispatches denied_env demo_args None
        [TimeTime, Post ''http://hook'' (Restarted (Some ''app'') 7 150 10),
         Terminate 7, ProcName 7, ShellRun ''app start'', Systemctl ''app''] []
     = [(ProcName 7, False, True), (ShellRun ''app start'', False, True),
        (Systemctl ''app'', False, True)]
   \<and> prefix [Systemctl ''app'', ShellRun ''app start'', ProcName 7] (plan demo_args 7)"
proof -
  have hd: "snd (handle_trip denied_env demo_args None 7 150 10 [])
     = [TimeTime, Post ''http://hook'' (Restarted (Some ''app'') 7 150 10),
        Terminate 7, ProcName 7, ShellRun ''app start'', Systemctl ''app''] @ []"
    by (simp add: run_defs demo_defs denied_env_def failing_env_def)
  have o: "(\<forall>g c. clock denied_env g \<le> clock denied_env (c # g))
      \<and> fst (gate denied_env demo_args None [])"
    by (simp add: demo_defs denied_env_def failing_env_def gate_def)
  show ?thesis
    using strategies_never_raise [where E = denied_env and s = "''app''" and h = "[]"
        and c = "''app start''" and p = 7 and sc = "Some ''app start''" and a = demo_args
        and la = None and m' = 150 and c' = 10
        and new = "[TimeTime, Post ''http://hook'' (Restarted (Some ''app'') 7 150 10),
          Terminate 7, ProcName 7, ShellRun ''app start'', Systemctl ''app'']"] hd o
    by (simp add: demo_defs denied_env_def failing_env_def kill_and_start_body_def name_call_def
        plan_def gate_passed_def)
qed

subsection \<open>kill_and_start\<close>

text \<open>
  C6. When no call fails unexpectedly, kill_and_start asks for the process name, sends
  the termination signal, waits with a timeout of 10, sends the kill signal if and only
  if the wait timed out, launches the start command if one is configured, and reports
  success. On every path the kill signal is sent at most once, and exactly when the wait
  was reached and timed out.
\<close>

theorem kill_and_start_sequence:
  "(proc_name E h p = Inr nm
      \<and> terminate E (ProcName p # h) p = None
      \<and> (wait E (Terminate p # ProcName p # h) p 10 = None
          \<or> wait E (Terminate p # ProcName p # h) p 10 = Some TimeoutExpired
             \<and> kill E (Wait p 10 # Terminate p # ProcName p # h) p = None)
      \<and> (\<forall>g c. popen E g c = None)
    \<longrightarrow> kill_and_start E p sc h =
          (Inr (True, KillStartDone),
           (case sc of None \<Rightarrow> [] | Some c \<Rightarrow> if c = [] then [] else [Popen c])
           @ (if wait E (Terminate p # ProcName p # h) p 10 = Some TimeoutExpired then [Kill p] else [])
           @ [Wait p 10, Terminate p, ProcName p] @ h))
   \<and> count_list (snd (kill_and_start E p sc h)) (Kill p) =
       count_list h (Kill p)
       + (if \<not> isl (proc_name E h p) \<and> terminate E (ProcName p # h) p = None
             \<and> wait E (Terminate p # ProcName p # h) p 10 = Some TimeoutExpired
          then 1 else 0)"
  by (cases "proc_name E h p"; cases "terminate E (ProcName p # h) p";
      cases "wait E (Terminate p # ProcName p # h) p 10";
      cases "kill E (Wait p 10 # Terminate p # ProcName p # h) p"; cases sc)
    (auto simp: kill_and_start_def kill_and_start_body_def name_call_def wait_or_kill_def
      launch_eq split: option.splits sum.splits)

theorem kill_and_start_sequence_witness:
  "kill_and_start stubborn_env 7 (Some ''app start'') []
     = (Inr (True, KillStartDone),
        [Popen ''app start'', Kill 7, Wait 7 10, Terminate 7, ProcName 7])
   \<and> count_list (snd (kill_and_start stubborn_env 7 (Some ''app start'') [])) (Kill 7) = 1"
proof -
  have s: "proc_name stubborn_env [] 7 = Inr ''app''
      \<and> terminate stubborn_env [ProcName 7] 7 = None
      \<and> wait stubborn_env [Terminate 7, ProcName 7] 7 10 = Some TimeoutExpired
      \<and> kill stubborn_env [Wait 7 10, Terminate 7, ProcName 7] 7 = None
      \<and> (\<forall>g c. popen stubborn_env g c = None)"
    by (simp add: demo_defs stubborn_env_def)
  show ?thesis
    using kill_and_start_sequence [of stubborn_env "[]" 7 "''app''" "Some ''app start''"] s
    by simp
qed

subsection \<open>Resolving by name\<close>

lemma name_matches_spec:
  "target \<noteq> [] \<Longrightarrow> name_matches (Some target) i = Inr (name_match_spec target i)"
  by (cases "info_cmdline i") (auto simp: name_matches_def name_match_spec_def)

lemma scan_spec:
  assumes "target \<noteq> []"
    and "\<forall>(p, r) \<in> set es. \<forall>e. r = Inl e \<longrightarrow> is_gone e"
  shows "scan (Some target) es procs =
     Inr (procs @ map fst (filter (\<lambda>(p, i). name_match_spec target i) (readable es)))"
  using assms(2)
proof (induction es arbitrary: procs)
  case Nil
  then show ?case by simp
next
  case (Cons x es)
  obtain p r where x: "x = (p, r)" by (cases x)
  show ?case
  proof (cases r)
    case (Inl e)
    then have "is_gone e" using Cons.prems x by auto
    then show ?thesis using Cons x Inl by simp
  next
    case (Inr i)
    then show ?thesis using Cons x name_matches_spec [OF assms(1)] by simp
  qed
qed

text \<open>
  C8. In name mode (no pid, a non-empty target) the resolver returns, in the order of the
  enumeration, exactly the readable processes whose name equals the target or whose joined
  command line contains it; entries that raise NoSuchProcess or AccessDenied are skipped.
\<close>

theorem name_mode_resolver:
  assumes "\<not> truthy_str (pid a)" "name a = Some target" "target \<noteq> []"
    and "\<forall>(p, r) \<in> set (process_iter E h). \<forall>e. r = Inl e \<longrightarrow> is_gone e"
  shows "resolve E a h =
     (Inr (map fst (filter (\<lambda>(p, i). name_match_spec target i) (readable (process_iter E h)))),
      ProcessIter # h)"
  using assms scan_spec [OF assms(3,4), of "[]"]
  by (simp add: resolve_def find_processes_by_name_def)

theorem name_mode_resolver_witness:
  "resolve crowd_env demo_args [] = (Inr [7, 9], [ProcessIter])"
proof -
  have s: "\<not> truthy_str (pid demo_args) \<and> name demo_args = Some ''app'' \<and> ''app'' \<noteq> []
      \<and> (\<forall>(p, r) \<in> set (process_iter crowd_env []). \<forall>e. r = Inl e \<longrightarrow> is_gone e)"
    by (simp add: demo_defs crowd_env_def)
  show ?thesis
    using name_mode_resolver [of demo_args "''app''" crowd_env "[]"] s
    by (simp add: demo_defs crowd_env_def name_match_spec_def sublist_code(3))
qed

subsection \<open>The threshold test\<close>

text \<open>
  C1. A sampled process is escalated if and only if the memory threshold is set, not zero
  and below the measured megabytes, or the CPU threshold is set, not zero and below the
  measured percentage; otherwise the pass leaves \<open>last_action\<close> as it was. A threshold
  that is unset or zero never trips.
\<close>

theorem threshold_trip_iff:
  "(threshold_trip a mem_mb cpu \<longleftrightarrow>
      (\<exists>m. max_mem_mb a = Some m \<and> m \<noteq> 0 \<and> mem_mb > m)
      \<or> (\<exists>c. max_cpu a = Some c \<and> c \<noteq> 0 \<and> cpu > c))
   \<and> (memory_rss E h p = Inr rss \<and> cpu_percent E (MemoryInfo p # h) p = Inr cpu \<longrightarrow>
        check_process E a la p h =
          (if (\<exists>m. max_mem_mb a = Some m \<and> m \<noteq> 0 \<and> real rss / 1024 ^ 2 > m)
              \<or> (\<exists>c. max_cpu a = Some c \<and> c \<noteq> 0 \<and> cpu > c)
           then handle_trip E a la p (real rss / 1024 ^ 2) cpu (CpuPercent p # MemoryInfo p # h)
           else (Inr la, CpuPercent p # MemoryInfo p # h)))
   \<and> ((max_mem_mb a = None \<or> max_mem_mb a = Some 0) \<and> (max_cpu a = None \<or> max_cpu a = Some 0)
        \<longrightarrow> \<not> threshold_trip a mem_mb cpu)"
proof -
  have t: "threshold_trip a x y \<longleftrightarrow>
      (\<exists>m. max_mem_mb a = Some m \<and> m \<noteq> 0 \<and> x > m)
      \<or> (\<exists>c. max_cpu a = Some c \<and> c \<noteq> 0 \<and> y > c)" for x y
    by (cases "max_mem_mb a"; cases "max_cpu a") (simp_all add: threshold_trip_def exceeds_def)
  have c: "check_process E a la p h =
          (if threshold_trip a (real rss / 1024 ^ 2) cpu
           then handle_trip E a la p (real rss / 1024 ^ 2) cpu (CpuPercent p # MemoryInfo p # h)
           else (Inr la, CpuPercent p # MemoryInfo p # h))"
    if "memory_rss E h p = Inr rss" "cpu_percent E (MemoryInfo p # h) p = Inr cpu"
  proof -
    obtain h3 t' where "handle_trip E a la p (real rss / 1024 ^ 2) cpu (CpuPercent p # MemoryInfo p # h)
        = (Inr (Some t'), h3)"
      using handle_trip_ends [of "CpuPercent p # MemoryInfo p # h" E a la p "real rss / 1024 ^ 2" cpu]
      by blast
    then show ?thesis using that by (simp add: check_process_def sample_def)
  qed
  have z: "\<not> threshold_trip a mem_mb cpu"
    if "(max_mem_mb a = None \<or> max_mem_mb a = Some 0) \<and> (max_cpu a = None \<or> max_cpu a = Some 0)"
    using that by (auto simp: threshold_trip_def exceeds_def)
  show ?thesis using t c z by presburger
qed

theorem threshold_trip_iff_witness:
  "threshold_trip demo_args 150 10
   \<and> \<not> threshold_trip demo_args 99 50
   \<and> \<not> threshold_trip (demo_args\<lparr>max_mem_mb := Some 0, max_cpu := None\<rparr>) 150 99
   \<and> check_process demo_env demo_args None 7 [] =
       handle_trip demo_env demo_args None 7 150 10 [CpuPercent 7, MemoryInfo 7]"
proof -
  have s: "memory_rss demo_env [] 7 = Inr (150 * 1024 ^ 2)
      \<and> cpu_percent demo_env [MemoryInfo 7] 7 = Inr 10"
    by (simp add: demo_defs)
  have z: "(max_mem_mb (demo_args\<lparr>max_mem_mb := Some 0, max_cpu := None\<rparr>) = None
        \<or> max_mem_mb (demo_args\<lparr>max_mem_mb := Some 0, max_cpu := None\<rparr>) = Some 0)
      \<and> (max_cpu (demo_args\<lparr>max_mem_mb := Some 0, max_cpu := None\<rparr>) = None
        \<or> max_cpu (demo_args\<lparr>max_mem_mb := Some 0, max_cpu := None\<rparr>) = Some 0)"
    by simp
  have m: "max_mem_mb demo_args = Some 100 \<and> max_cpu demo_args = Some 50"
    by (simp add: demo_defs)
  show ?thesis
    using threshold_trip_iff [of demo_args 150 10 demo_env "[]" 7 "150 * 1024 ^ 2" None]
      threshold_trip_iff [of demo_args 99 50 demo_env "[]" 7 "150 * 1024 ^ 2" None]
      threshold_trip_iff [of "demo_args\<lparr>max_mem_mb := Some 0, max_cpu := None\<rparr>" 150 99
        demo_env "[]" 7 "150 * 1024 ^ 2" None] s z m
    by simp
qed

subsection \<open>The selector check\<close>

text \<open>
  C9 fails on the code, at a command line with neither a name nor a pid. The check would
  reject it, but it does not run at startup: the module's top level calls nothing, so run
  as a script the program reports no error and ends. The check sits inside the loop of
  \<open>main\<close>: when \<open>main\<close> is called from the \<open>__main__\<close> module, a whole pass
  (here a start attempt, its notification, the timestamp and the sleep) runs before the
  parser reports the error; when it is called from elsewhere, the loop runs on with no
  check at all, or ends in the TypeError of line 28 as soon as a process has a command
  line.
\<close>

theorem selector_check_not_at_startup:
  "selector_check no_selector_args = Some ''Must specify --name or --pid''
   \<and> module_body harness_env [] = (None, [])
   \<and> main (Suc 0) harness_env no_selector_args None [] =
       (ParserExit (Some ''Must specify --name or --pid''),
        [Sleep 15, TimeTime, Post ''http://hook'' (Started None), ShellRun ''app start'',
         ProcessIter])
   \<and> main (Suc (Suc 0)) empty_env no_selector_args None [] =
       (Running (Some 1003),
        [Sleep 15, TimeTime, ProcessIter,
         Sleep 15, TimeTime, Post ''http://hook'' (Started None), ShellRun ''app start'',
         ProcessIter])
   \<and> main (Suc 0) demo_env no_selector_args None [] = (Raised TypeError, [ProcessIter])"
  by (simp add: selector_check_def module_body_def tick_def resolve_def
      find_processes_by_name_def name_matches_def not_found_def sleep_def run_defs demo_defs
      no_selector_args_def harness_env_def empty_env_def)

end
